theory Spec2Isabelle
  imports Main "HOL-Library.Char_ord" "HOL-Library.List_Lexorder"
begin

text \<open>
  The package \<^verbatim>\<open>zapwrapper\<close> has one function, \<^verbatim>\<open>NewLogger\<close>: it names a new log file
  after the current time, builds a logger that writes every accepted record to the console
  and to that file, and removes one entry of the log directory when the directory holds more
  than \<^verbatim>\<open>maxBackup\<close> entries. This theory embeds the function with the library calls it
  makes (time formatting, directory listing and removal, zap's cores and console encoder, the
  lazily created file of lumberjack) and proves what the specification says about it.
\<close>

section \<open>Wall-clock time and Go's layout-driven formatting\<close>

text \<open>
  \<^verbatim>\<open>time.Now()\<close> is a parameter of the model: the instant the call happens, broken down
  into the civil fields that \<^verbatim>\<open>Time.Format\<close> reads (in the process's local zone).
  The nanosecond field is kept, since the clock is finer than the one-second layout.
\<close>

record civil_time =
  year :: int
  month :: nat
  day :: nat
  hour :: nat
  minute :: nat
  second :: nat
  nanosecond :: nat

definition valid_time :: "civil_time \<Rightarrow> bool" where
  "valid_time t \<longleftrightarrow>
     1 \<le> month t \<and> month t \<le> 12 \<and> 1 \<le> day t \<and> day t \<le> 31 \<and>
     hour t < 24 \<and> minute t < 60 \<and> second t < 60 \<and> nanosecond t < 1000000000"

text \<open>Chronological order of two instants of one zone: year first, nanosecond last.\<close>

definition chron_key :: "civil_time \<Rightarrow> int \<times> nat \<times> nat \<times> nat \<times> nat \<times> nat \<times> nat" where
  "chron_key t = (year t, month t, day t, hour t, minute t, second t, nanosecond t)"

fun tuple_less :: "int \<times> nat \<times> nat \<times> nat \<times> nat \<times> nat \<times> nat \<Rightarrow>
    int \<times> nat \<times> nat \<times> nat \<times> nat \<times> nat \<times> nat \<Rightarrow> bool" where
  "tuple_less (y, mo, d, h, mi, s, n) (y', mo', d', h', mi', s', n') \<longleftrightarrow>
     y < y' \<or> (y = y' \<and> (mo < mo' \<or> (mo = mo' \<and> (d < d' \<or> (d = d' \<and>
     (h < h' \<or> (h = h' \<and> (mi < mi' \<or> (mi = mi' \<and> (s < s' \<or> (s = s' \<and> n < n')))))))))))"

definition earlier :: "civil_time \<Rightarrow> civil_time \<Rightarrow> bool" where
  "earlier t t' \<longleftrightarrow> tuple_less (chron_key t) (chron_key t')"

text \<open>Two instants fall into the same wall-clock second when only the nanoseconds differ.\<close>

definition same_second :: "civil_time \<Rightarrow> civil_time \<Rightarrow> bool" where
  "same_second t t' \<longleftrightarrow>
     year t = year t' \<and> month t = month t' \<and> day t = day t' \<and>
     hour t = hour t' \<and> minute t = minute t' \<and> second t = second t'"

definition same_day :: "civil_time \<Rightarrow> civil_time \<Rightarrow> bool" where
  "same_day t t' \<longleftrightarrow> year t = year t' \<and> month t = month t' \<and> day t = day t'"

subsection \<open>Decimal rendering (\<^verbatim>\<open>appendInt\<close> of package time)\<close>

definition digit_char :: "nat \<Rightarrow> char" where
  "digit_char d = char_of (48 + d)"

fun decimal :: "nat \<Rightarrow> string" where
  "decimal n = (if n < 10 then [digit_char n] else decimal (n div 10) @ [digit_char (n mod 10)])"

declare decimal.simps [simp del]

text \<open>
  \<^verbatim>\<open>appendInt(b, x, width)\<close>: a minus sign for a negative value, then the decimal digits
  of the magnitude, padded with zeros on the left up to \<open>width\<close> digits.
\<close>

definition appendInt :: "int \<Rightarrow> nat \<Rightarrow> string" where
  "appendInt x width =
     (let u = nat \<bar>x\<bar>; ds = decimal u
      in (if x < 0 then ''-'' else '''') @ replicate (width - length ds) (CHR ''0'') @ ds)"

text \<open>The spec's reading of a zero-padded two-digit field: tens digit, units digit.\<close>

definition pad2 :: "nat \<Rightarrow> string" where
  "pad2 n = [digit_char (n div 10), digit_char (n mod 10)]"

subsection \<open>The three layouts of the source\<close>

text \<open>
  Layout \<^verbatim>\<open>"02-01-06_15-04-05"\<close> (line 56): \<^verbatim>\<open>02\<close> is the zero-padded day,
  \<^verbatim>\<open>01\<close> the zero-padded month, \<^verbatim>\<open>06\<close> the year modulo 100 (of its magnitude),
  \<^verbatim>\<open>15\<close> the 24-hour hour, \<^verbatim>\<open>04\<close> the minute, \<^verbatim>\<open>05\<close> the second; the
  hyphens and the underscore (not followed by \<^verbatim>\<open>2\<close>) are literal.
\<close>

definition stdYear :: "civil_time \<Rightarrow> string" where
  "stdYear t = appendInt (\<bar>year t\<bar> mod 100) 2"

definition stdLongYear :: "civil_time \<Rightarrow> string" where
  "stdLongYear t = appendInt (year t) 4"

definition format_file_stamp :: "civil_time \<Rightarrow> string" where
  "format_file_stamp t =
     appendInt (int (day t)) 2 @ ''-'' @ appendInt (int (month t)) 2 @ ''-'' @ stdYear t @ ''_'' @
     appendInt (int (hour t)) 2 @ ''-'' @ appendInt (int (minute t)) 2 @ ''-'' @
     appendInt (int (second t)) 2"

text \<open>Layout \<^verbatim>\<open>"02-01-06 15:04:05"\<close> of the console encoder (line 90).\<close>

definition format_console_time :: "civil_time \<Rightarrow> string" where
  "format_console_time t =
     appendInt (int (day t)) 2 @ ''-'' @ appendInt (int (month t)) 2 @ ''-'' @ stdYear t @ '' '' @
     appendInt (int (hour t)) 2 @ '':'' @ appendInt (int (minute t)) 2 @ '':'' @
     appendInt (int (second t)) 2"

text \<open>Layout \<^verbatim>\<open>"02-01-2006 15:04:05"\<close> of the file encoder (line 105).\<close>

definition format_file_time :: "civil_time \<Rightarrow> string" where
  "format_file_time t =
     appendInt (int (day t)) 2 @ ''-'' @ appendInt (int (month t)) 2 @ ''-'' @ stdLongYear t @ '' '' @
     appendInt (int (hour t)) 2 @ '':'' @ appendInt (int (minute t)) 2 @ '':'' @
     appendInt (int (second t)) 2"

text \<open>Line 57: \<^verbatim>\<open>filename := filepath + "/logs_" + timestamp + ".log"\<close>.\<close>

definition entry_name :: "civil_time \<Rightarrow> string" where
  "entry_name t = ''logs_'' @ format_file_stamp t @ ''.log''"

definition log_filename :: "string \<Rightarrow> civil_time \<Rightarrow> string" where
  "log_filename filepath t = filepath @ ''/'' @ entry_name t"

section \<open>The structured-logging collaborator (zapcore), as far as the factory configures it\<close>

text \<open>
  \<^verbatim>\<open>zapcore.Level\<close> is a signed 8-bit integer; the factory only compares levels and
  switches on them, so a level is an \<open>int\<close> here.
\<close>

type_synonym Level = int

definition DebugLevel :: Level where "DebugLevel = -1"
definition InfoLevel :: Level where "InfoLevel = 0"
definition WarnLevel :: Level where "WarnLevel = 1"
definition ErrorLevel :: Level where "ErrorLevel = 2"
definition DPanicLevel :: Level where "DPanicLevel = 3"
definition PanicLevel :: Level where "PanicLevel = 4"
definition FatalLevel :: Level where "FatalLevel = 5"

text \<open>Lines 25 to 30: the ANSI escape sequences (\<^verbatim>\<open>\033\<close> is the byte 27).\<close>

definition colorRed :: string where "colorRed = CHR 0x1B # ''[31m''"
definition colorGreen :: string where "colorGreen = CHR 0x1B # ''[32m''"
definition colorYellow :: string where "colorYellow = CHR 0x1B # ''[33m''"
definition colorMagenta :: string where "colorMagenta = CHR 0x1B # ''[35m''"
definition colorCyan :: string where "colorCyan = CHR 0x1B # ''[36m''"
definition colorReset :: string where "colorReset = CHR 0x1B # ''[0m''"

text \<open>
  Lines 70 to 86: the \<^verbatim>\<open>switch\<close> of the console level encoder. It has no default
  branch, so any other level keeps the zero value of \<^verbatim>\<open>var color string\<close>.
\<close>

definition level_color :: "Level \<Rightarrow> string" where
  "level_color level =
     (if level = DebugLevel then colorCyan
      else if level = InfoLevel then colorGreen
      else if level = WarnLevel then colorYellow
      else if level = ErrorLevel then colorRed
      else if level = DPanicLevel then colorMagenta
      else if level = PanicLevel then colorMagenta
      else if level = FatalLevel then colorRed
      else [])"

definition show_int :: "int \<Rightarrow> string" where
  "show_int x = (if x < 0 then ''-'' else []) @ decimal (nat \<bar>x\<bar>)"

text \<open>\<^verbatim>\<open>Level.CapitalString\<close>, with its \<^verbatim>\<open>LEVEL(%d)\<close> default.\<close>

definition CapitalString :: "Level \<Rightarrow> string" where
  "CapitalString l =
     (if l = DebugLevel then ''DEBUG''
      else if l = InfoLevel then ''INFO''
      else if l = WarnLevel then ''WARN''
      else if l = ErrorLevel then ''ERROR''
      else if l = DPanicLevel then ''DPANIC''
      else if l = PanicLevel then ''PANIC''
      else if l = FatalLevel then ''FATAL''
      else ''LEVEL('' @ show_int l @ '')'')"

text \<open>Line 87: \<^verbatim>\<open>enc.AppendString(color + level.CapitalString() + colorReset)\<close>.\<close>

definition colorLevelEncoder :: "Level \<Rightarrow> string" where
  "colorLevelEncoder level = level_color level @ CapitalString level @ colorReset"

definition CapitalLevelEncoder :: "Level \<Rightarrow> string" where
  "CapitalLevelEncoder l = CapitalString l"

text \<open>
  A log record as the logger hands it to its cores: \<^verbatim>\<open>zapcore.Entry\<close> and the
  fields. \<open>Caller\<close> is \<open>None\<close> for an undefined caller, else the trimmed path and the
  function name. A field is a key with its value as zap's JSON encoder renders it; fields of
  time type, whose rendering goes through \<open>EncodeTime\<close>, are outside this model.
\<close>

record Entry =
  Level :: Level
  Time :: civil_time
  LoggerName :: string
  Message :: string
  Caller :: "(string \<times> string) option"
  Stack :: string

type_synonym Field = "string \<times> string"

record EncoderConfig =
  MessageKey :: string
  LevelKey :: string
  TimeKey :: string
  NameKey :: string
  CallerKey :: string
  FunctionKey :: string
  StacktraceKey :: string
  LineEnding :: string
  EncodeLevel :: "Level \<Rightarrow> string"
  EncodeTime :: "civil_time \<Rightarrow> string"
  ConsoleSeparator :: string

definition DefaultLineEnding :: string where
  "DefaultLineEnding = [CHR 0x0A]"

text \<open>Lines 60 to 93 and 96 to 108. Keys the source leaves out have Go's zero value.\<close>

definition consoleEncoderConfig :: EncoderConfig where
  "consoleEncoderConfig =
     \<lparr>MessageKey = ''msg'', LevelKey = ''level'', TimeKey = ''time'', NameKey = ''logger'',
      CallerKey = ''caller'', FunctionKey = [], StacktraceKey = ''stacktrace'',
      LineEnding = DefaultLineEnding, EncodeLevel = colorLevelEncoder,
      EncodeTime = format_console_time, ConsoleSeparator = []\<rparr>"

definition fileEncoderConfig :: EncoderConfig where
  "fileEncoderConfig =
     \<lparr>MessageKey = ''msg'', LevelKey = ''level'', TimeKey = ''time'', NameKey = ''logger'',
      CallerKey = ''caller'', FunctionKey = [], StacktraceKey = ''stacktrace'',
      LineEnding = DefaultLineEnding, EncodeLevel = CapitalLevelEncoder,
      EncodeTime = format_file_time, ConsoleSeparator = []\<rparr>"

text \<open>\<^verbatim>\<open>zapcore.NewConsoleEncoder\<close>: an empty separator becomes a tab.\<close>

definition NewConsoleEncoder :: "EncoderConfig \<Rightarrow> EncoderConfig" where
  "NewConsoleEncoder cfg =
     (if ConsoleSeparator cfg = [] then cfg\<lparr>ConsoleSeparator := [CHR 0x09]\<rparr> else cfg)"

text \<open>\<^verbatim>\<open>Time.IsZero\<close>: the instant January 1 of year 1, 00:00:00.\<close>

definition IsZero :: "civil_time \<Rightarrow> bool" where
  "IsZero t \<longleftrightarrow> year t = 1 \<and> month t = 1 \<and> day t = 1 \<and> hour t = 0 \<and> minute t = 0 \<and>
     second t = 0 \<and> nanosecond t = 0"

fun join :: "string \<Rightarrow> string list \<Rightarrow> string" where
  "join sep [] = []"
| "join sep [x] = x"
| "join sep (x # y # ys) = x @ sep @ join sep (y # ys)"

text \<open>The columns that \<^verbatim>\<open>consoleEncoder.EncodeEntry\<close> collects before the message.\<close>

definition columns :: "EncoderConfig \<Rightarrow> Entry \<Rightarrow> string list" where
  "columns c ent =
     (if TimeKey c \<noteq> [] \<and> \<not> IsZero (Time ent) then [EncodeTime c (Time ent)] else []) @
     (if LevelKey c \<noteq> [] then [EncodeLevel c (Level ent)] else []) @
     (if LoggerName ent \<noteq> [] \<and> NameKey c \<noteq> [] then [LoggerName ent] else []) @
     (case Caller ent of
        None \<Rightarrow> []
      | Some (path, fn) \<Rightarrow>
          (if CallerKey c \<noteq> [] then [path] else []) @
          (if FunctionKey c \<noteq> [] then [fn] else []))"

definition addSeparatorIfNecessary :: "EncoderConfig \<Rightarrow> string \<Rightarrow> string" where
  "addSeparatorIfNecessary c line = (if line \<noteq> [] then line @ ConsoleSeparator c else line)"

definition json_field :: "Field \<Rightarrow> string" where
  "json_field f = [CHR 0x22] @ fst f @ [CHR 0x22] @ '':'' @ snd f"

definition writeContext :: "EncoderConfig \<Rightarrow> string \<Rightarrow> Field list \<Rightarrow> string" where
  "writeContext c line extra =
     (let context = join '','' (map json_field extra)
      in if context = [] then line
         else addSeparatorIfNecessary c line @ ''{'' @ context @ ''}'')"

definition EncodeEntry :: "EncoderConfig \<Rightarrow> Entry \<Rightarrow> Field list \<Rightarrow> string" where
  "EncodeEntry c ent flds =
     (let line0 = join (ConsoleSeparator c) (columns c ent);
          line1 = (if MessageKey c \<noteq> [] then addSeparatorIfNecessary c line0 @ Message ent
                   else line0);
          line2 = writeContext c line1 flds;
          line3 = (if Stack ent \<noteq> [] \<and> StacktraceKey c \<noteq> []
                   then line2 @ [CHR 0x0A] @ Stack ent else line2)
      in line3 @ LineEnding c)"

text \<open>
  The two destinations: standard output, and the rotating writer opened on a file name
  (\<^verbatim>\<open>lumberjack.Logger{Filename: filename}\<close>).
\<close>

datatype WriteSyncer = Stdout | Lumberjack string

record Core =
  enc :: EncoderConfig
  out :: WriteSyncer
  enab :: Level

definition NewCore :: "EncoderConfig \<Rightarrow> WriteSyncer \<Rightarrow> Level \<Rightarrow> Core" where
  "NewCore e ws l = \<lparr>enc = e, out = ws, enab = l\<rparr>"

text \<open>\<^verbatim>\<open>Level.Enabled\<close>: \<^verbatim>\<open>lvl >= l\<close>.\<close>

definition Enabled :: "Core \<Rightarrow> Level \<Rightarrow> bool" where
  "Enabled c lvl \<longleftrightarrow> enab c \<le> lvl"

text \<open>A logger is the list of cores of its tee (\<^verbatim>\<open>zap.New(zapcore.NewTee(...))\<close>).\<close>

record Logger =
  cores :: "Core list"

definition NewTee :: "Core list \<Rightarrow> Logger" where
  "NewTee cs = \<lparr>cores = cs\<rparr>"

text \<open>
  \<^verbatim>\<open>multiCore.Check\<close> asks each core in turn; \<^verbatim>\<open>ioCore.Check\<close> adds the core to the
  checked entry when its level enabler accepts the entry's level.
\<close>

definition Check :: "Logger \<Rightarrow> Entry \<Rightarrow> Core list" where
  "Check lg ent = filter (\<lambda>c. Enabled c (Level ent)) (cores lg)"

text \<open>\<^verbatim>\<open>ioCore.Write\<close>: the encoded line goes to the core's writer.\<close>

definition Write :: "Core \<Rightarrow> Entry \<Rightarrow> Field list \<Rightarrow> WriteSyncer \<times> string" where
  "Write c ent flds = (out c, EncodeEntry (enc c) ent flds)"

text \<open>
  Emitting a record (\<^verbatim>\<open>Logger.Info\<close> and its siblings): the early exit of
  \<^verbatim>\<open>Logger.check\<close> below \<^verbatim>\<open>DPanicLevel\<close>, then one write per checked core, in the
  order of the tee. The result is the sequence of writes, each with its destination.
\<close>

definition emit :: "Logger \<Rightarrow> Entry \<Rightarrow> Field list \<Rightarrow> (WriteSyncer \<times> string) list" where
  "emit lg ent flds =
     (if Level ent < DPanicLevel \<and> \<not> list_ex (\<lambda>c. Enabled c (Level ent)) (cores lg) then []
      else map (\<lambda>c. Write c ent flds) (Check lg ent))"

section \<open>The file system at the target path\<close>

text \<open>
  The factory touches one path, \<open>filepath\<close>, and the direct entries below it. The state of
  the file system is therefore the state of that path: absent, something that is not a
  directory, or a directory (readable or not) with its entries. An entry is a regular file
  or a subdirectory, and a subdirectory is empty or not: \<^verbatim>\<open>os.Remove\<close> tells them
  apart.
\<close>

datatype dirent_kind = Regular | EmptyDir | NonEmptyDir

type_synonym dirent = "string \<times> dirent_kind"

datatype path_state = Absent | NotDirectory | Directory bool "dirent list"

text \<open>
  Entry names of one directory are pairwise different: the properties below take
  \<open>distinct (map fst es)\<close> for the entries \<open>es\<close> of a directory.
\<close>

fun entries :: "path_state \<Rightarrow> dirent list" where
  "entries (Directory r es) = es"
| "entries _ = []"

datatype fs_error = ENOENT | ENOTDIR | EACCES | ENOTEMPTY

text \<open>The calls the factory makes, in order, each with its path argument.\<close>

datatype syscall = Stat string | ReadDir string | Remove string

text \<open>\<^verbatim>\<open>os.Stat\<close>: the error is nil exactly when the path exists.\<close>

fun os_Stat :: "path_state \<Rightarrow> fs_error option" where
  "os_Stat Absent = Some ENOENT"
| "os_Stat _ = None"

text \<open>
  \<^verbatim>\<open>os.ReadDir\<close>: the entries sorted by file name, or no entry and an error when the
  path cannot be opened as a directory. A read error in the middle of a listing, after which
  Go returns the entries read so far, is not part of this model.
\<close>

fun os_ReadDir :: "path_state \<Rightarrow> dirent list \<times> fs_error option" where
  "os_ReadDir Absent = ([], Some ENOENT)"
| "os_ReadDir NotDirectory = ([], Some ENOTDIR)"
| "os_ReadDir (Directory r es) = (if r then (sort_key fst es, None) else ([], Some EACCES))"

text \<open>
  \<^verbatim>\<open>os.Remove\<close> on the entry \<open>name\<close> of the directory: a regular file or an empty
  directory goes away, a directory that still has entries stays and the call fails.
\<close>

fun os_Remove :: "string \<Rightarrow> path_state \<Rightarrow> path_state \<times> fs_error option" where
  "os_Remove name (Directory r es) =
     (case map_of es name of
        None \<Rightarrow> (Directory r es, Some ENOENT)
      | Some NonEmptyDir \<Rightarrow> (Directory r es, Some ENOTEMPTY)
      | Some _ \<Rightarrow> (Directory r (filter (\<lambda>e. fst e \<noteq> name) es), None))"
| "os_Remove name Absent = (Absent, Some ENOENT)"
| "os_Remove name NotDirectory = (NotDirectory, Some ENOTDIR)"

section \<open>The factory\<close>

text \<open>A run-time panic of Go: an index outside a slice (index, length).\<close>

datatype panic = IndexOutOfRange nat nat

text \<open>
  Lines 134 to 146. Both errors of the listing and of the removal are dropped, as in the
  source (\<^verbatim>\<open>files, _ := os.ReadDir(filepath)\<close>, the result of \<^verbatim>\<open>os.Remove\<close> unused).
  \<^verbatim>\<open>sort.Slice\<close> orders the entries by name with the byte-wise \<^verbatim>\<open><\<close> of Go strings;
  \<^verbatim>\<open>files[0]\<close> panics on an empty slice.
\<close>

definition prune :: "string \<Rightarrow> int \<Rightarrow> path_state \<Rightarrow> panic + (path_state \<times> syscall list)" where
  "prune filepath maxBackup st =
     (if os_Stat st = None then
        (let files = fst (os_ReadDir st) in
         if int (length files) > maxBackup then
           (case sort_key fst files of
              [] \<Rightarrow> Inl (IndexOutOfRange 0 0)
            | f # _ \<Rightarrow>
                Inr (fst (os_Remove (fst f) st),
                     [Stat filepath, ReadDir filepath, Remove (filepath @ ''/'' @ fst f)]))
         else Inr (st, [Stat filepath, ReadDir filepath]))
      else Inr (st, [Stat filepath]))"

text \<open>
  \<^verbatim>\<open>NewLogger\<close> (lines 53 to 150). \<open>now\<close> is what \<^verbatim>\<open>time.Now()\<close> returns and \<open>st\<close>
  the file system at \<open>filepath\<close>. The result is a panic, or the logger with the file system
  it leaves and the calls it made.
\<close>

definition NewLogger ::
  "string \<Rightarrow> int \<Rightarrow> Level \<Rightarrow> civil_time \<Rightarrow> path_state \<Rightarrow>
     panic + (Logger \<times> path_state \<times> syscall list)" where
  "NewLogger filepath maxBackup logLevel now st =
     (let timestamp = format_file_stamp now;
          filename = filepath @ ''/logs_'' @ timestamp @ ''.log'';
          consoleCore = NewCore (NewConsoleEncoder consoleEncoderConfig) Stdout logLevel;
          fileCore = NewCore (NewConsoleEncoder fileEncoderConfig) (Lumberjack filename) logLevel;
          core = NewTee [consoleCore, fileCore]
      in case prune filepath maxBackup st of
           Inl p \<Rightarrow> Inl p
         | Inr (st', calls) \<Rightarrow> Inr (core, st', calls))"

section \<open>The rotating file writer and a run of the program\<close>

text \<open>
  \<^verbatim>\<open>lumberjack.Logger\<close> opens its file at the first write: it creates the directory when
  it is missing, then the file when it is missing, and appends to an existing regular file.
  The record written is far below the size at which the writer rotates. \<open>None\<close> stands for
  the one case left out here: the name exists already and is a directory.
\<close>

definition child_name :: "string \<Rightarrow> string \<Rightarrow> string option" where
  "child_name filepath filename =
     (let p = filepath @ ''/''
      in if take (length p) filename = p then Some (drop (length p) filename) else None)"

fun lumberjack_Write :: "string \<Rightarrow> path_state \<Rightarrow> path_state option" where
  "lumberjack_Write name Absent = Some (Directory True [(name, Regular)])"
| "lumberjack_Write name NotDirectory = Some NotDirectory"
| "lumberjack_Write name (Directory r es) =
     (case map_of es name of
        None \<Rightarrow> Some (Directory r (es @ [(name, Regular)]))
      | Some Regular \<Rightarrow> Some (Directory r es)
      | Some _ \<Rightarrow> None)"

text \<open>The effect of a sequence of writes on the directory: only file writes count.\<close>

fun apply_writes :: "string \<Rightarrow> (WriteSyncer \<times> string) list \<Rightarrow> path_state \<Rightarrow> path_state option" where
  "apply_writes filepath [] st = Some st"
| "apply_writes filepath ((Stdout, bytes) # ws) st = apply_writes filepath ws st"
| "apply_writes filepath ((Lumberjack filename, bytes) # ws) st =
     (case child_name filepath filename of
        None \<Rightarrow> None
      | Some name \<Rightarrow>
          (case lumberjack_Write name st of
             None \<Rightarrow> None
           | Some st' \<Rightarrow> apply_writes filepath ws st'))"

datatype failure = Panicked panic | Unmodelled

text \<open>
  One run of a program as in the test: call the factory, emit one record through the
  returned logger, flush. A sequence of runs is given by the instant of each call and the
  record it emits.
\<close>

definition run_once ::
  "string \<Rightarrow> int \<Rightarrow> Level \<Rightarrow> civil_time \<times> Entry \<times> Field list \<Rightarrow> path_state \<Rightarrow>
     failure + path_state" where
  "run_once filepath maxBackup logLevel call st =
     (case NewLogger filepath maxBackup logLevel (fst call) st of
        Inl p \<Rightarrow> Inl (Panicked p)
      | Inr (logger, st', calls) \<Rightarrow>
          (case apply_writes filepath (emit logger (fst (snd call)) (snd (snd call))) st' of
             None \<Rightarrow> Inl Unmodelled
           | Some st'' \<Rightarrow> Inr st''))"

fun run_calls ::
  "string \<Rightarrow> int \<Rightarrow> Level \<Rightarrow> (civil_time \<times> Entry \<times> Field list) list \<Rightarrow> path_state \<Rightarrow>
     failure + path_state" where
  "run_calls filepath maxBackup logLevel [] st = Inr st"
| "run_calls filepath maxBackup logLevel (c # cs) st =
     (case run_once filepath maxBackup logLevel c st of
        Inl f \<Rightarrow> Inl f
      | Inr st' \<Rightarrow> run_calls filepath maxBackup logLevel cs st')"

section \<open>Reading a result, and the inputs used as examples\<close>

definition logger_of :: "panic + (Logger \<times> path_state \<times> syscall list) \<Rightarrow> Logger option" where
  "logger_of r = (case r of Inl p \<Rightarrow> None | Inr (lg, st, calls) \<Rightarrow> Some lg)"

definition state_after :: "panic + (Logger \<times> path_state \<times> syscall list) \<Rightarrow> path_state option" where
  "state_after r = (case r of Inl p \<Rightarrow> None | Inr (lg, st, calls) \<Rightarrow> Some st)"

definition calls_of :: "panic + (Logger \<times> path_state \<times> syscall list) \<Rightarrow> syscall list option" where
  "calls_of r = (case r of Inl p \<Rightarrow> None | Inr (lg, st, calls) \<Rightarrow> Some calls)"

definition sinks :: "Logger \<Rightarrow> WriteSyncer list" where
  "sinks lg = map out (cores lg)"

text \<open>An instant of the year 2024: month, day, hour, minute, second.\<close>

definition in_2024 :: "nat \<Rightarrow> nat \<Rightarrow> nat \<Rightarrow> nat \<Rightarrow> nat \<Rightarrow> civil_time" where
  "in_2024 mo d h mi s =
     \<lparr>year = 2024, month = mo, day = d, hour = h, minute = mi, second = s, nanosecond = 0\<rparr>"

text \<open>The record of the test: an info message with one integer field.\<close>

definition test_entry :: "civil_time \<Rightarrow> Entry" where
  "test_entry t =
     \<lparr>Level = InfoLevel, Time = t, LoggerName = [], Message = ''This is a test log message'',
      Caller = None, Stack = []\<rparr>"

definition test_call :: "civil_time \<Rightarrow> civil_time \<times> Entry \<times> Field list" where
  "test_call t = (t, test_entry t, [(''iteration'', ''0'')])"

text \<open>Five calls one second apart on 15 June 2024, from 10:00:00 on.\<close>

definition five_calls :: "(civil_time \<times> Entry \<times> Field list) list" where
  "five_calls = map (\<lambda>s. test_call (in_2024 6 15 10 0 s)) [0, 1, 2, 3, 4]"

text \<open>Directories used as examples: four log files; unrelated entries beside a log file.\<close>

definition four_logs :: "dirent list" where
  "four_logs =
     [(''logs_15-06-24_10-00-00.log'', Regular), (''logs_15-06-24_10-00-01.log'', Regular),
      (''logs_15-06-24_10-00-02.log'', Regular), (''logs_15-06-24_10-00-03.log'', Regular)]"

definition mixed_entries :: "dirent list" where
  "mixed_entries =
     [(''logs_15-06-24_10-00-00.log'', Regular), (''aaa.txt'', Regular), (''old'', NonEmptyDir)]"

definition with_subdir :: "dirent list" where
  "with_subdir = [(''logs_15-06-24_10-00-00.log'', Regular), (''archive'', EmptyDir)]"

definition with_full_subdir :: "dirent list" where
  "with_full_subdir = [(''archive'', NonEmptyDir), (''logs_14-06-24_10-00-00.log'', Regular)]"

text \<open>The files of two runs, on 31 January and on 1 February 2024.\<close>

definition two_days :: "dirent list" where
  "two_days =
     [(entry_name (in_2024 1 31 10 0 0), Regular), (entry_name (in_2024 2 1 10 0 0), Regular)]"

text \<open>
  The parts of a rendered line, named as the spec names them: the time column (absent for the
  zero time), and everything after the level tag, i.e. logger name, caller, message, fields,
  stack trace and line ending, each column after a tab.
\<close>

definition tab :: string where
  "tab = [CHR 0x09]"

definition time_column :: "(civil_time \<Rightarrow> string) \<Rightarrow> Entry \<Rightarrow> string" where
  "time_column f ent = (if IsZero (Time ent) then [] else f (Time ent) @ tab)"

definition line_rest :: "Entry \<Rightarrow> Field list \<Rightarrow> string" where
  "line_rest ent flds =
     (if LoggerName ent \<noteq> [] then tab @ LoggerName ent else []) @
     (case Caller ent of None \<Rightarrow> [] | Some (path, fn) \<Rightarrow> tab @ path) @
     tab @ Message ent @
     (if flds = [] then [] else tab @ ''{'' @ join '','' (map json_field flds) @ ''}'') @
     (if Stack ent \<noteq> [] then [CHR 0x0A] @ Stack ent else []) @
     [CHR 0x0A]"

text \<open>What the two time layouts share: day and month before the year, the clock after it.\<close>

definition day_month :: "civil_time \<Rightarrow> string" where
  "day_month t = appendInt (int (day t)) 2 @ ''-'' @ appendInt (int (month t)) 2 @ ''-''"

definition clock :: "civil_time \<Rightarrow> string" where
  "clock t = '' '' @ appendInt (int (hour t)) 2 @ '':'' @ appendInt (int (minute t)) 2 @ '':'' @
     appendInt (int (second t)) 2"

text \<open>
  A directory that holds nothing but regular files, under pairwise different names, and at
  most one more than the retention count.
\<close>

definition bounded_logs :: "int \<Rightarrow> dirent list \<Rightarrow> bool" where
  "bounded_logs maxBackup es \<longleftrightarrow>
     distinct (map fst es) \<and> (\<forall>e\<in>set es. snd e = Regular) \<and> int (length es) \<le> maxBackup + 1"

section \<open>Properties: time stamps and file names\<close>

lemmas level_defs =
  DebugLevel_def InfoLevel_def WarnLevel_def ErrorLevel_def DPanicLevel_def PanicLevel_def
  FatalLevel_def

lemmas color_defs =
  colorRed_def colorGreen_def colorYellow_def colorMagenta_def colorCyan_def colorReset_def

lemma digit_char_0: "digit_char 0 = CHR ''0''"
  by code_simp

lemma decimal_small: "n < 10 \<Longrightarrow> decimal n = [digit_char n]"
  by (simp add: decimal.simps)

lemma decimal_two:
  "10 \<le> n \<Longrightarrow> n < 100 \<Longrightarrow> decimal n = [digit_char (n div 10), digit_char (n mod 10)]"
  by (subst decimal.simps) (simp add: decimal_small)

text \<open>On a value below 100, Go's padded rendering is the two-digit field of the spec.\<close>

lemma appendInt_pad2: "n < 100 \<Longrightarrow> appendInt (int n) 2 = pad2 n"
proof (cases "n < 10")
  case True
  then show ?thesis
    by (simp add: appendInt_def pad2_def decimal_small digit_char_0 Let_def)
next
  case False
  assume "n < 100"
  with False show ?thesis
    by (simp add: appendInt_def pad2_def decimal_two Let_def)
qed

lemma stdYear_pad2: "stdYear t = pad2 (nat (\<bar>year t\<bar> mod 100))"
proof -
  have "nat (\<bar>year t\<bar> mod 100) < 100" by simp
  from appendInt_pad2 [OF this] show ?thesis
    by (simp add: stdYear_def)
qed

lemma format_file_stamp_pad2:
  assumes "valid_time t"
  shows "format_file_stamp t =
     pad2 (day t) @ ''-'' @ pad2 (month t) @ ''-'' @ pad2 (nat (\<bar>year t\<bar> mod 100)) @ ''_'' @
     pad2 (hour t) @ ''-'' @ pad2 (minute t) @ ''-'' @ pad2 (second t)"
  using assms
  by (simp add: format_file_stamp_def valid_time_def appendInt_pad2 stdYear_pad2)

lemma format_file_stamp_same_second:
  "same_second t t' \<Longrightarrow> format_file_stamp t' = format_file_stamp t"
  by (simp add: same_second_def format_file_stamp_def stdYear_def)

lemma NewLogger_sinks:
  "NewLogger filepath maxBackup logLevel now st = Inr (lg, st', calls) \<Longrightarrow>
   sinks lg = [Stdout, Lumberjack (log_filename filepath now)]"
  by (auto simp: NewLogger_def Let_def sinks_def NewTee_def NewCore_def log_filename_def
      entry_name_def split: sum.splits)

text \<open>
  Claim C8. The file sink of the returned logger is opened on exactly
  \<open>filepath/logs_DD-MM-YY_HH-MM-SS.log\<close>, every field of the stamp being the two-digit,
  zero-padded rendering of the call's wall-clock time cut to the second; hence a second call
  on the same directory within the same wall-clock second gets the identical path.
\<close>

theorem C8_log_file_path:
  "valid_time now \<Longrightarrow>
   NewLogger filepath maxBackup logLevel now st = Inr (lg, st', calls) \<Longrightarrow>
   sinks lg =
     [Stdout,
      Lumberjack (filepath @ ''/logs_'' @
        pad2 (day now) @ ''-'' @ pad2 (month now) @ ''-'' @ pad2 (nat (\<bar>year now\<bar> mod 100)) @
        ''_'' @ pad2 (hour now) @ ''-'' @ pad2 (minute now) @ ''-'' @ pad2 (second now) @
        ''.log'')] \<and>
   (\<forall>now' maxBackup' logLevel' st2 lg' st2' calls'.
      same_second now now' \<longrightarrow>
      NewLogger filepath maxBackup' logLevel' now' st2 = Inr (lg', st2', calls') \<longrightarrow>
      sinks lg' = sinks lg)"
proof (intro conjI allI impI)
  assume v: "valid_time now"
    and r: "NewLogger filepath maxBackup logLevel now st = Inr (lg, st', calls)"
  from NewLogger_sinks [OF r] format_file_stamp_pad2 [OF v]
  show "sinks lg =
     [Stdout,
      Lumberjack (filepath @ ''/logs_'' @
        pad2 (day now) @ ''-'' @ pad2 (month now) @ ''-'' @ pad2 (nat (\<bar>year now\<bar> mod 100)) @
        ''_'' @ pad2 (hour now) @ ''-'' @ pad2 (minute now) @ ''-'' @ pad2 (second now) @
        ''.log'')]"
    by (simp add: log_filename_def entry_name_def)
next
  fix now' maxBackup' logLevel' st2 lg' st2' calls'
  assume r: "NewLogger filepath maxBackup logLevel now st = Inr (lg, st', calls)"
    and s: "same_second now now'"
    and r': "NewLogger filepath maxBackup' logLevel' now' st2 = Inr (lg', st2', calls')"
  from NewLogger_sinks [OF r] NewLogger_sinks [OF r'] format_file_stamp_same_second [OF s]
  show "sinks lg' = sinks lg"
    by (simp add: log_filename_def entry_name_def)
qed

theorem C8_log_file_path_witness:
  "map_option sinks
     (logger_of (NewLogger ''./test_logs'' 3 DebugLevel (in_2024 6 15 10 0 0) (Directory True []))) =
     Some [Stdout, Lumberjack ''./test_logs/logs_15-06-24_10-00-00.log''] \<and>
   map_option sinks
     (logger_of (NewLogger ''./test_logs'' 3 DebugLevel
        ((in_2024 6 15 10 0 0)\<lparr>nanosecond := 999999999\<rparr>) (Directory True []))) =
     Some [Stdout, Lumberjack ''./test_logs/logs_15-06-24_10-00-00.log'']"
proof -
  let ?t = "in_2024 6 15 10 0 0"
  let ?t' = "(in_2024 6 15 10 0 0)\<lparr>nanosecond := 999999999\<rparr>"
  have v: "valid_time ?t"
    by (simp add: valid_time_def in_2024_def)
  have s: "same_second ?t ?t'"
    by (simp add: same_second_def in_2024_def)
  obtain lg st' calls
    where r: "NewLogger ''./test_logs'' 3 DebugLevel ?t (Directory True []) = Inr (lg, st', calls)"
    by (simp add: NewLogger_def prune_def Let_def)
  obtain lg' st2' calls'
    where r': "NewLogger ''./test_logs'' 3 DebugLevel ?t' (Directory True []) = Inr (lg', st2', calls')"
    by (simp add: NewLogger_def prune_def Let_def)
  have p: "pad2 15 = ''15''" "pad2 6 = ''06''" "pad2 24 = ''24''" "pad2 10 = ''10''"
    "pad2 0 = ''00''"
    by code_simp+
  note c = C8_log_file_path [OF v r]
  from c have a: "sinks lg = [Stdout, Lumberjack ''./test_logs/logs_15-06-24_10-00-00.log'']"
    by (simp add: in_2024_def p)
  from c s r' have "sinks lg' = sinks lg"
    by blast
  with a r r' show ?thesis
    by (simp add: logger_of_def)
qed

text \<open>
  Claim C2, evaluated at the input where the code departs from it. The call of 1 February
  2024 is later than the call of 31 January 2024, yet its file name is the smaller string:
  the layout puts the day before the month and the year, so string order follows the calendar
  only inside one day. A third call on 2 February, with retention count 1, then removes the
  file of 1 February and keeps the older one.
\<close>

theorem C2_later_call_sorts_first:
  "earlier (in_2024 1 31 10 0 0) (in_2024 2 1 10 0 0) \<and>
   log_filename ''./logs'' (in_2024 1 31 10 0 0) = ''./logs/logs_31-01-24_10-00-00.log'' \<and>
   log_filename ''./logs'' (in_2024 2 1 10 0 0) = ''./logs/logs_01-02-24_10-00-00.log'' \<and>
   log_filename ''./logs'' (in_2024 2 1 10 0 0) < log_filename ''./logs'' (in_2024 1 31 10 0 0) \<and>
   state_after (NewLogger ''./logs'' 1 InfoLevel (in_2024 2 2 10 0 0) (Directory True two_days)) =
     Some (Directory True [(''logs_31-01-24_10-00-00.log'', Regular)])"
  by code_simp

section \<open>Properties: the colour of a level\<close>

text \<open>
  Claim C9, as the code has it. The colour of a level is a fixed function of the level.
  Debug, info, warn, error and the panic pair (DPanic, Panic) get five different colours;
  fatal is not a colour of its own and is not in the panic tier: it is red, like error.
\<close>

theorem C9_level_colors:
  "distinct [level_color DebugLevel, level_color InfoLevel, level_color WarnLevel,
     level_color ErrorLevel, level_color DPanicLevel] \<and>
   level_color PanicLevel = level_color DPanicLevel \<and>
   level_color FatalLevel = level_color ErrorLevel \<and>
   colorLevelEncoder l = level_color l @ CapitalString l @ colorReset"
  by (simp add: level_color_def level_defs color_defs colorLevelEncoder_def)

text \<open>
  The claim as stated fails at the fatal level: it has the colour of the error tier, and not
  the colour of the panic levels it is grouped with.
\<close>

theorem C9_fatal_is_red:
  "level_color FatalLevel = level_color ErrorLevel \<and>
   level_color FatalLevel \<noteq> level_color PanicLevel"
  by (simp add: level_color_def level_defs color_defs)

section \<open>Properties: pruning\<close>

lemma sort_key_twice: "sort_key f (sort_key f xs) = sort_key f xs"
  by (simp add: sort_key_id_if_sorted)

lemma sort_key_head:
  assumes "sort_key fst es = f # fs"
  shows "f \<in> set es \<and> (\<forall>e\<in>set es. fst f \<le> fst e)"
proof -
  have "set (sort_key fst es) = set es" by simp
  with assms have s: "set es = insert f (set fs)" by simp
  have "sorted (map fst (sort_key fst es))" by simp
  with assms have "\<forall>e\<in>set fs. fst f \<le> fst e" by simp
  with s show ?thesis by auto
qed

lemma sort_key_nonempty: "es \<noteq> [] \<Longrightarrow> \<exists>f fs. sort_key fst es = f # fs"
proof -
  assume "es \<noteq> []"
  then have "length (sort_key fst es) \<noteq> 0" by simp
  then show ?thesis by (cases "sort_key fst es") auto
qed

lemma prune_readable:
  "prune filepath maxBackup (Directory True es) =
     (if int (length es) > maxBackup then
        (case sort_key fst es of
           [] \<Rightarrow> Inl (IndexOutOfRange 0 0)
         | f # _ \<Rightarrow> Inr (fst (os_Remove (fst f) (Directory True es)),
              [Stat filepath, ReadDir filepath, Remove (filepath @ ''/'' @ fst f)]))
      else Inr (Directory True es, [Stat filepath, ReadDir filepath]))"
  by (simp add: prune_def sort_key_twice)

lemma prune_unlisted:
  "snd (os_ReadDir st) \<noteq> None \<Longrightarrow>
   prune filepath maxBackup st =
     (if os_Stat st = None then
        (if 0 > maxBackup then Inl (IndexOutOfRange 0 0) else Inr (st, [Stat filepath, ReadDir filepath]))
      else Inr (st, [Stat filepath]))"
  by (cases st) (auto simp: prune_def)

lemma prune_no_panic: "0 \<le> maxBackup \<Longrightarrow> prune filepath maxBackup st \<noteq> Inl p"
proof (cases st)
  case (Directory r es)
  assume k: "0 \<le> maxBackup"
  show ?thesis
  proof (cases r)
    case True
    show ?thesis
    proof (cases "int (length es) > maxBackup")
      case gt: True
      with k have "es \<noteq> []" by auto
      from sort_key_nonempty [OF this] obtain f fs where "sort_key fst es = f # fs" by blast
      with gt Directory True show ?thesis by (simp add: prune_readable)
    next
      case False
      with Directory True show ?thesis by (simp add: prune_readable)
    qed
  next
    case False
    with k Directory show ?thesis by (simp add: prune_def)
  qed
qed (auto simp: prune_def)

lemma NewLogger_prune:
  "NewLogger filepath maxBackup logLevel now st =
     (case prune filepath maxBackup st of
        Inl p \<Rightarrow> Inl p
      | Inr (st', calls) \<Rightarrow>
          Inr (NewTee [NewCore (NewConsoleEncoder consoleEncoderConfig) Stdout logLevel,
                 NewCore (NewConsoleEncoder fileEncoderConfig) (Lumberjack (log_filename filepath now)) logLevel],
               st', calls))"
  by (simp add: NewLogger_def Let_def log_filename_def entry_name_def split: sum.splits)

lemma NewLogger_no_panic: "0 \<le> maxBackup \<Longrightarrow> NewLogger filepath maxBackup logLevel now st \<noteq> Inl p"
  using prune_no_panic [of maxBackup filepath st]
  by (auto simp: NewLogger_prune split: sum.splits)

text \<open>
  Claim C10. With a retention count that is not negative, the branch that removes a file is
  entered only with at least one listed entry, so \<^verbatim>\<open>files[0]\<close> is in bounds and the
  factory does not panic, whatever the state of the path. With a negative retention count and
  an existing empty directory the branch is entered with no entry, and the factory panics
  with an index out of range.
\<close>

theorem C10_first_entry_in_bounds:
  "(0 \<le> maxBackup \<longrightarrow>
      (os_Stat st = None \<and> int (length (fst (os_ReadDir st))) > maxBackup \<longrightarrow>
         sort_key fst (fst (os_ReadDir st)) \<noteq> []) \<and>
      (\<forall>p. NewLogger filepath maxBackup logLevel now st \<noteq> Inl p)) \<and>
   (maxBackup < 0 \<longrightarrow>
      NewLogger filepath maxBackup logLevel now (Directory r []) = Inl (IndexOutOfRange 0 0))"
proof (intro conjI impI allI)
  assume "0 \<le> maxBackup"
    and "os_Stat st = None \<and> int (length (fst (os_ReadDir st))) > maxBackup"
  then have "0 < length (fst (os_ReadDir st))"
    by linarith
  then have "length (sort_key fst (fst (os_ReadDir st))) \<noteq> 0"
    by simp
  then show "sort_key fst (fst (os_ReadDir st)) \<noteq> []"
    by (metis list.size(3))
next
  fix p
  assume "0 \<le> maxBackup"
  then show "NewLogger filepath maxBackup logLevel now st \<noteq> Inl p"
    by (rule NewLogger_no_panic)
next
  assume "maxBackup < 0"
  then show "NewLogger filepath maxBackup logLevel now (Directory r []) = Inl (IndexOutOfRange 0 0)"
    by (simp add: NewLogger_prune prune_def)
qed

theorem C10_first_entry_in_bounds_witness:
  "sort_key fst (fst (os_ReadDir (Directory True four_logs))) \<noteq> [] \<and>
   NewLogger ''./test_logs'' 3 DebugLevel (in_2024 6 15 10 0 4) (Directory True four_logs) \<noteq> Inl (IndexOutOfRange 0 0) \<and>
   NewLogger ''./test_logs'' (- 1) DebugLevel (in_2024 6 15 10 0 4) (Directory True []) = Inl (IndexOutOfRange 0 0)"
  using C10_first_entry_in_bounds
      [of 3 "Directory True four_logs" "''./test_logs''" DebugLevel "in_2024 6 15 10 0 4" True]
    C10_first_entry_in_bounds
      [of "- 1" "Directory True four_logs" "''./test_logs''" DebugLevel "in_2024 6 15 10 0 4" True]
  by (simp add: four_logs_def)


lemma emit_console:
  assumes "NewLogger filepath maxBackup logLevel now st = Inr (lg, st', calls)"
    and "logLevel \<le> Level ent"
  shows "emit lg ent flds =
     [(Stdout, EncodeEntry (NewConsoleEncoder consoleEncoderConfig) ent flds),
      (Lumberjack (log_filename filepath now), EncodeEntry (NewConsoleEncoder fileEncoderConfig) ent flds)]"
  using assms
  by (auto simp: NewLogger_prune emit_def Check_def Enabled_def NewTee_def NewCore_def Write_def
      split: sum.splits)

lemma emit_below:
  assumes "NewLogger filepath maxBackup logLevel now st = Inr (lg, st', calls)"
    and "Level ent < logLevel"
  shows "emit lg ent flds = []"
  using assms
  by (auto simp: NewLogger_prune emit_def Check_def Enabled_def NewTee_def NewCore_def Write_def
      split: sum.splits)

text \<open>
  Claim C6. For a retention count that is not negative the factory returns a logger for
  every state of the target path: its console sink is standard output and takes every record
  at or above the minimum level, its file sink is opened on the new file name. When the
  directory cannot be listed (the path is absent, is not a directory, or is a directory that
  cannot be read) the file system is left as it was and no removal is attempted.
\<close>

theorem C6_listing_failure_skips_pruning:
  "0 \<le> maxBackup \<Longrightarrow>
   (\<exists>lg st' calls. NewLogger filepath maxBackup logLevel now st = Inr (lg, st', calls) \<and>
      sinks lg = [Stdout, Lumberjack (log_filename filepath now)] \<and>
      (\<forall>ent flds. logLevel \<le> Level ent \<longrightarrow>
         (Stdout, EncodeEntry (NewConsoleEncoder consoleEncoderConfig) ent flds) \<in> set (emit lg ent flds)) \<and>
      (snd (os_ReadDir st) \<noteq> None \<longrightarrow> st' = st \<and> (\<forall>p. Remove p \<notin> set calls)))"
proof -
  assume k: "0 \<le> maxBackup"
  obtain r where r: "NewLogger filepath maxBackup logLevel now st = Inr r"
    using NewLogger_no_panic [OF k, of filepath logLevel now st]
    by (cases "NewLogger filepath maxBackup logLevel now st") auto
  obtain lg st' calls where t: "r = (lg, st', calls)"
    by (cases r)
  have p: "prune filepath maxBackup st = Inr (st', calls)"
    using r t by (auto simp: NewLogger_prune split: sum.splits)
  have a: "snd (os_ReadDir st) \<noteq> None \<longrightarrow> st' = st \<and> (\<forall>p. Remove p \<notin> set calls)"
    using p k by (auto simp: prune_unlisted split: if_splits)
  have b: "\<forall>ent flds. logLevel \<le> Level ent \<longrightarrow>
         (Stdout, EncodeEntry (NewConsoleEncoder consoleEncoderConfig) ent flds) \<in> set (emit lg ent flds)"
    using emit_console [OF r [unfolded t]] by simp
  from r t a b NewLogger_sinks [OF r [unfolded t]] show ?thesis
    by blast
qed

theorem C6_listing_failure_skips_pruning_witness:
  "state_after (NewLogger ''./test_logs'' 3 DebugLevel (in_2024 6 15 10 0 0) Absent) =
     Some Absent \<and>
   state_after (NewLogger ''./test_logs'' 3 DebugLevel (in_2024 6 15 10 0 0) NotDirectory) =
     Some NotDirectory \<and>
   state_after (NewLogger ''./test_logs'' 3 DebugLevel (in_2024 6 15 10 0 0)
      (Directory False four_logs)) = Some (Directory False four_logs)"
proof -
  have k: "(0::int) \<le> 3" by simp
  from C6_listing_failure_skips_pruning
      [OF k, of "''./test_logs''" DebugLevel "in_2024 6 15 10 0 0" Absent]
  have a: "state_after (NewLogger ''./test_logs'' 3 DebugLevel (in_2024 6 15 10 0 0) Absent) =
     Some Absent"
    by (auto simp: state_after_def)
  from C6_listing_failure_skips_pruning
      [OF k, of "''./test_logs''" DebugLevel "in_2024 6 15 10 0 0" NotDirectory]
  have b: "state_after (NewLogger ''./test_logs'' 3 DebugLevel (in_2024 6 15 10 0 0)
      NotDirectory) = Some NotDirectory"
    by (auto simp: state_after_def)
  from C6_listing_failure_skips_pruning
      [OF k, of "''./test_logs''" DebugLevel "in_2024 6 15 10 0 0" "Directory False four_logs"]
  have c: "state_after (NewLogger ''./test_logs'' 3 DebugLevel (in_2024 6 15 10 0 0)
      (Directory False four_logs)) = Some (Directory False four_logs)"
    by (auto simp: state_after_def)
  from a b c show ?thesis by simp
qed

lemma filter_other_names:
  "distinct (map fst es) \<Longrightarrow> (n, kd) \<in> set es \<Longrightarrow> filter (\<lambda>e. fst e \<noteq> n) es = remove1 (n, kd) es"
proof (induction es)
  case Nil
  then show ?case by simp
next
  case (Cons e es)
  show ?case
  proof (cases "e = (n, kd)")
    case True
    with Cons.prems have "\<forall>x\<in>set es. fst x \<noteq> n" by force
    with True show ?thesis by simp
  next
    case False
    with Cons.prems have i: "(n, kd) \<in> set es" by auto
    then have "n \<in> fst ` set es" by force
    moreover from Cons.prems have "fst e \<notin> fst ` set es" by simp
    ultimately have "fst e \<noteq> n" by auto
    with False i Cons show ?thesis by simp
  qed
qed

lemma os_Remove_entry:
  assumes "distinct (map fst es)" and "(n, kd) \<in> set es"
  shows "os_Remove n (Directory r es) =
     (if kd = NonEmptyDir then (Directory r es, Some ENOTEMPTY)
      else (Directory r (remove1 (n, kd) es), None))"
proof -
  from assms have "map_of es n = Some kd" by simp
  with assms show ?thesis
    by (cases kd) (simp_all add: filter_other_names)
qed

lemma prune_over_limit:
  assumes d: "distinct (map fst es)" and k: "0 \<le> maxBackup" and gt: "int (length es) > maxBackup"
  shows "prune filepath maxBackup (Directory True es) =
       Inr (Directory True
              (if map_of es (Min (fst ` set es)) = Some NonEmptyDir then es
               else filter (\<lambda>e. fst e \<noteq> Min (fst ` set es)) es),
            [Stat filepath, ReadDir filepath, Remove (filepath @ ''/'' @ Min (fst ` set es))])"
    and "length (filter (\<lambda>e. fst e \<noteq> Min (fst ` set es)) es) = length es - 1"
proof -
  from k gt have "es \<noteq> []" by auto
  from sort_key_nonempty [OF this] obtain f fs where s: "sort_key fst es = f # fs" by blast
  obtain n kd where f: "f = (n, kd)" by (cases f)
  from sort_key_head [OF s] f have m: "(n, kd) \<in> set es" "\<forall>m\<in>fst ` set es. n \<le> m" by auto
  from m(1) have "n \<in> fst ` set es" by force
  with m(2) have n: "Min (fst ` set es) = n"
    by (intro Min_eqI) auto
  from d m(1) have mo: "map_of es n = Some kd" by simp
  from gt s f os_Remove_entry [OF d m(1)] mo
  show "prune filepath maxBackup (Directory True es) =
       Inr (Directory True
              (if map_of es (Min (fst ` set es)) = Some NonEmptyDir then es
               else filter (\<lambda>e. fst e \<noteq> Min (fst ` set es)) es),
            [Stat filepath, ReadDir filepath, Remove (filepath @ ''/'' @ Min (fst ` set es))])"
    by (simp add: prune_readable n filter_other_names [OF d m(1)])
  from d have "distinct es" by (simp add: distinct_map)
  with m(1) show "length (filter (\<lambda>e. fst e \<noteq> Min (fst ` set es)) es) = length es - 1"
    by (simp add: n filter_other_names [OF d m(1)] length_remove1)
qed

text \<open>
  Claim C7. In a readable directory the factory counts all entries, whatever their kind and
  name, and compares that count with the retention count; when the count is larger, the one
  removal it attempts is on the entry whose name is the least of all names in the directory,
  be it a log file, an unrelated file or a subdirectory.
\<close>

theorem C7_all_entries_are_candidates:
  "distinct (map fst es) \<Longrightarrow> 0 \<le> maxBackup \<Longrightarrow>
   calls_of (NewLogger filepath maxBackup logLevel now (Directory True es)) =
     Some (if int (length es) > maxBackup
           then [Stat filepath, ReadDir filepath, Remove (filepath @ ''/'' @ Min (fst ` set es))]
           else [Stat filepath, ReadDir filepath])"
proof (cases "int (length es) > maxBackup")
  case False
  then show ?thesis
    by (simp add: NewLogger_prune prune_readable calls_of_def)
next
  case True
  assume "distinct (map fst es)" "0 \<le> maxBackup"
  from prune_over_limit(1) [OF this True, of filepath] True show ?thesis
    by (simp add: NewLogger_prune calls_of_def)
qed

theorem C7_all_entries_are_candidates_witness:
  "calls_of (NewLogger ''./logs'' 2 InfoLevel (in_2024 6 15 10 0 1) (Directory True mixed_entries)) =
     Some [Stat ''./logs'', ReadDir ''./logs'', Remove ''./logs/aaa.txt''] \<and>
   calls_of (NewLogger ''./logs'' 1 InfoLevel (in_2024 6 15 10 0 1) (Directory True with_subdir)) =
     Some [Stat ''./logs'', ReadDir ''./logs'', Remove ''./logs/archive''] \<and>
   calls_of (NewLogger ''./logs'' 3 InfoLevel (in_2024 6 15 10 0 1) (Directory True mixed_entries)) =
     Some [Stat ''./logs'', ReadDir ''./logs'']"
proof -
  have d: "distinct (map fst mixed_entries)" "distinct (map fst with_subdir)"
    by (simp_all add: mixed_entries_def with_subdir_def)
  have k: "(0::int) \<le> 2" "(0::int) \<le> 1" "(0::int) \<le> 3"
    by simp_all
  have l: "length mixed_entries = 3" "length with_subdir = 2"
    by (simp_all add: mixed_entries_def with_subdir_def)
  have m: "Min (fst ` set mixed_entries) = ''aaa.txt''" "Min (fst ` set with_subdir) = ''archive''"
    by code_simp+
  from C7_all_entries_are_candidates [OF d(1) k(1), of "''./logs''" InfoLevel "in_2024 6 15 10 0 1"]
    C7_all_entries_are_candidates [OF d(2) k(2), of "''./logs''" InfoLevel "in_2024 6 15 10 0 1"]
    C7_all_entries_are_candidates [OF d(1) k(3), of "''./logs''" InfoLevel "in_2024 6 15 10 0 1"]
  show ?thesis
    by (simp add: l m)
qed

text \<open>
  Claim C4, as the code has it. In a readable directory with more entries than the retention
  count, the factory attempts one removal, of the entry with the least name: the entry goes
  away unless it is a subdirectory that still has entries, for which \<^verbatim>\<open>os.Remove\<close>
  fails and the error is dropped; every other entry stays, so the directory loses at most one
  entry, and exactly one when the removal succeeds. With at most as many entries as the
  retention count, and in a directory that cannot be listed, nothing is removed.
\<close>

theorem C4_one_removal_of_least_name:
  "distinct (map fst es) \<Longrightarrow> 0 \<le> maxBackup \<Longrightarrow>
   (int (length es) > maxBackup \<longrightarrow>
      state_after (NewLogger filepath maxBackup logLevel now (Directory True es)) =
        Some (Directory True
               (if map_of es (Min (fst ` set es)) = Some NonEmptyDir then es
                else filter (\<lambda>e. fst e \<noteq> Min (fst ` set es)) es)) \<and>
      length (filter (\<lambda>e. fst e \<noteq> Min (fst ` set es)) es) = length es - 1) \<and>
   (int (length es) \<le> maxBackup \<longrightarrow>
      state_after (NewLogger filepath maxBackup logLevel now (Directory True es)) =
        Some (Directory True es)) \<and>
   state_after (NewLogger filepath maxBackup logLevel now (Directory False es)) =
     Some (Directory False es)"
proof (intro conjI impI)
  assume "int (length es) \<le> maxBackup"
  then show "state_after (NewLogger filepath maxBackup logLevel now (Directory True es)) =
        Some (Directory True es)"
    by (simp add: NewLogger_prune prune_readable state_after_def)
next
  assume "0 \<le> maxBackup"
  then show "state_after (NewLogger filepath maxBackup logLevel now (Directory False es)) =
     Some (Directory False es)"
    by (simp add: NewLogger_prune prune_def state_after_def)
next
  assume a: "distinct (map fst es)" "0 \<le> maxBackup" "int (length es) > maxBackup"
  from prune_over_limit(1) [OF a, of filepath]
  show "state_after (NewLogger filepath maxBackup logLevel now (Directory True es)) =
        Some (Directory True
               (if map_of es (Min (fst ` set es)) = Some NonEmptyDir then es
                else filter (\<lambda>e. fst e \<noteq> Min (fst ` set es)) es))"
    by (simp add: NewLogger_prune state_after_def)
  from prune_over_limit(2) [OF a]
  show "length (filter (\<lambda>e. fst e \<noteq> Min (fst ` set es)) es) = length es - 1" .
qed

text \<open>
  The claim as stated fails when the least name belongs to a subdirectory that is not empty:
  two entries against a retention count of zero, and both are still there after the call.
\<close>

theorem C4_full_subdirectory_stays:
  "int (length with_full_subdir) > 0 \<and>
   state_after (NewLogger ''./logs'' 0 InfoLevel (in_2024 6 15 10 0 0)
      (Directory True with_full_subdir)) = Some (Directory True with_full_subdir) \<and>
   calls_of (NewLogger ''./logs'' 0 InfoLevel (in_2024 6 15 10 0 0)
      (Directory True with_full_subdir)) =
     Some [Stat ''./logs'', ReadDir ''./logs'', Remove ''./logs/archive'']"
  by code_simp

theorem C4_one_removal_of_least_name_witness:
  "state_after (NewLogger ''./test_logs'' 3 DebugLevel (in_2024 6 15 10 0 4) (Directory True four_logs)) =
     Some (Directory True (tl four_logs)) \<and>
   state_after (NewLogger ''./test_logs'' 4 DebugLevel (in_2024 6 15 10 0 4) (Directory True four_logs)) =
     Some (Directory True four_logs) \<and>
   state_after (NewLogger ''./logs'' 1 InfoLevel (in_2024 6 15 10 0 4) (Directory True with_subdir)) =
     Some (Directory True [(''logs_15-06-24_10-00-00.log'', Regular)])"
proof -
  have d: "distinct (map fst four_logs)" "distinct (map fst with_subdir)"
    by (simp_all add: four_logs_def with_subdir_def)
  have k: "(0::int) \<le> 3" "(0::int) \<le> 4" "(0::int) \<le> 1"
    by simp_all
  have l: "length four_logs = 4" "length with_subdir = 2"
    by (simp_all add: four_logs_def with_subdir_def)
  have m: "Min (fst ` set four_logs) = ''logs_15-06-24_10-00-00.log''"
    "Min (fst ` set with_subdir) = ''archive''"
    by code_simp+
  have f: "filter (\<lambda>e. fst e \<noteq> ''logs_15-06-24_10-00-00.log'') four_logs = tl four_logs"
    "map_of four_logs ''logs_15-06-24_10-00-00.log'' = Some Regular"
    "filter (\<lambda>e. fst e \<noteq> ''archive'') with_subdir = [(''logs_15-06-24_10-00-00.log'', Regular)]"
    "map_of with_subdir ''archive'' = Some EmptyDir"
    by (simp_all add: four_logs_def with_subdir_def)
  from C4_one_removal_of_least_name [OF d(1) k(1), of "''./test_logs''" DebugLevel "in_2024 6 15 10 0 4"]
    C4_one_removal_of_least_name [OF d(1) k(2), of "''./test_logs''" DebugLevel "in_2024 6 15 10 0 4"]
    C4_one_removal_of_least_name [OF d(2) k(3), of "''./logs''" InfoLevel "in_2024 6 15 10 0 4"]
  show ?thesis
    by (simp add: l m f)
qed

section \<open>Properties: the two sinks\<close>

lemma join_Cons: "join sep (x # xs) = x @ concat (map (\<lambda>c. sep @ c) xs)"
  by (induction xs arbitrary: x) auto

lemma join_fields_empty: "join '','' (map json_field flds) = [] \<longleftrightarrow> flds = []"
  by (cases flds) (auto simp: join_Cons json_field_def)

lemma CapitalString_nonempty: "CapitalString l \<noteq> []"
  by (simp add: CapitalString_def)

lemma EncodeEntry_console:
  "EncodeEntry (NewConsoleEncoder consoleEncoderConfig) ent flds =
     time_column format_console_time ent @
     level_color (Level ent) @ CapitalString (Level ent) @ colorReset @ line_rest ent flds"
  by (cases "Caller ent")
    (auto simp: EncodeEntry_def NewConsoleEncoder_def consoleEncoderConfig_def columns_def
      join_Cons addSeparatorIfNecessary_def writeContext_def Let_def join_fields_empty
      colorLevelEncoder_def line_rest_def time_column_def tab_def DefaultLineEnding_def
      CapitalString_nonempty)

lemma EncodeEntry_file:
  "EncodeEntry (NewConsoleEncoder fileEncoderConfig) ent flds =
     time_column format_file_time ent @ CapitalString (Level ent) @ line_rest ent flds"
  by (cases "Caller ent")
    (auto simp: EncodeEntry_def NewConsoleEncoder_def fileEncoderConfig_def columns_def
      join_Cons addSeparatorIfNecessary_def writeContext_def Let_def join_fields_empty
      CapitalLevelEncoder_def line_rest_def time_column_def tab_def DefaultLineEnding_def
      CapitalString_nonempty)

lemma time_formats:
  "format_console_time t = day_month t @ stdYear t @ clock t"
  "format_file_time t = day_month t @ stdLongYear t @ clock t"
  by (simp_all add: format_console_time_def format_file_time_def day_month_def clock_def)

text \<open>
  Claim C5. Through the logger the factory returns, a record at or above the minimum level
  is written once to standard output and once to the new log file, in that order, and a
  record below the minimum level is written to neither. The two lines have the same rest
  (logger name, caller, message, fields, stack trace); they differ in the level tag, which
  the console wraps in the colour of the level and the reset code, and in the time column,
  where the console prints the year with two digits and the file with four.
\<close>

theorem C5_both_sinks_or_neither:
  "NewLogger filepath maxBackup logLevel now st = Inr (lg, st', calls) \<Longrightarrow>
   (logLevel \<le> Level ent \<longrightarrow>
      emit lg ent flds =
        [(Stdout,
          time_column format_console_time ent @
          level_color (Level ent) @ CapitalString (Level ent) @ colorReset @ line_rest ent flds),
         (Lumberjack (log_filename filepath now),
          time_column format_file_time ent @ CapitalString (Level ent) @ line_rest ent flds)]) \<and>
   (Level ent < logLevel \<longrightarrow> emit lg ent flds = []) \<and>
   format_console_time (Time ent) = day_month (Time ent) @ stdYear (Time ent) @ clock (Time ent) \<and>
   format_file_time (Time ent) = day_month (Time ent) @ stdLongYear (Time ent) @ clock (Time ent)"
proof (intro conjI impI)
  assume n: "NewLogger filepath maxBackup logLevel now st = Inr (lg, st', calls)"
  {
    assume "logLevel \<le> Level ent"
    from emit_console [OF n this]
    show "emit lg ent flds =
        [(Stdout,
          time_column format_console_time ent @
          level_color (Level ent) @ CapitalString (Level ent) @ colorReset @ line_rest ent flds),
         (Lumberjack (log_filename filepath now),
          time_column format_file_time ent @ CapitalString (Level ent) @ line_rest ent flds)]"
      by (simp add: EncodeEntry_console EncodeEntry_file)
  next
    assume "Level ent < logLevel"
    from emit_below [OF n this] show "emit lg ent flds = []" .
  }
qed (rule time_formats)+

theorem C5_both_sinks_or_neither_witness:
  "map_option (\<lambda>lg. emit lg (test_entry (in_2024 6 15 10 0 0)) [(''iteration'', ''0'')])
     (logger_of (NewLogger ''./test_logs'' 3 DebugLevel (in_2024 6 15 10 0 0) (Directory True []))) =
     Some
       [(Stdout,
         ''15-06-24 10:00:00'' @ tab @ colorGreen @ ''INFO'' @ colorReset @ tab @
         ''This is a test log message'' @ tab @
         ''{'' @ [CHR 0x22] @ ''iteration'' @ [CHR 0x22] @ '':0}'' @ [CHR 0x0A]),
        (Lumberjack ''./test_logs/logs_15-06-24_10-00-00.log'',
         ''15-06-2024 10:00:00'' @ tab @ ''INFO'' @ tab @
         ''This is a test log message'' @ tab @
         ''{'' @ [CHR 0x22] @ ''iteration'' @ [CHR 0x22] @ '':0}'' @ [CHR 0x0A])] \<and>
   map_option (\<lambda>lg. emit lg (test_entry (in_2024 6 15 10 0 0)) [(''iteration'', ''0'')])
     (logger_of (NewLogger ''./test_logs'' 3 WarnLevel (in_2024 6 15 10 0 0) (Directory True []))) =
     Some []"
proof -
  let ?t = "in_2024 6 15 10 0 0"
  obtain lg st' calls
    where r: "NewLogger ''./test_logs'' 3 DebugLevel ?t (Directory True []) = Inr (lg, st', calls)"
    by (simp add: NewLogger_def prune_def Let_def)
  obtain lg' st2' calls'
    where r': "NewLogger ''./test_logs'' 3 WarnLevel ?t (Directory True []) = Inr (lg', st2', calls')"
    by (simp add: NewLogger_def prune_def Let_def)
  have l: "DebugLevel \<le> Level (test_entry ?t)" "Level (test_entry ?t) < WarnLevel"
    by (simp_all add: test_entry_def DebugLevel_def InfoLevel_def WarnLevel_def)
  have e: "time_column format_console_time (test_entry ?t) = ''15-06-24 10:00:00'' @ tab"
    "time_column format_file_time (test_entry ?t) = ''15-06-2024 10:00:00'' @ tab"
    "level_color (Level (test_entry ?t)) = colorGreen"
    "CapitalString (Level (test_entry ?t)) = ''INFO''"
    "line_rest (test_entry ?t) [(''iteration'', ''0'')] =
       tab @ ''This is a test log message'' @ tab @
         ''{'' @ [CHR 0x22] @ ''iteration'' @ [CHR 0x22] @ '':0}'' @ [CHR 0x0A]"
    "log_filename ''./test_logs'' ?t = ''./test_logs/logs_15-06-24_10-00-00.log''"
    by code_simp+
  from C5_both_sinks_or_neither [OF r, of "test_entry ?t" "[(''iteration'', ''0'')]"] l(1)
  have a: "emit lg (test_entry ?t) [(''iteration'', ''0'')] =
       [(Stdout,
         ''15-06-24 10:00:00'' @ tab @ colorGreen @ ''INFO'' @ colorReset @ tab @
         ''This is a test log message'' @ tab @
         ''{'' @ [CHR 0x22] @ ''iteration'' @ [CHR 0x22] @ '':0}'' @ [CHR 0x0A]),
        (Lumberjack ''./test_logs/logs_15-06-24_10-00-00.log'',
         ''15-06-2024 10:00:00'' @ tab @ ''INFO'' @ tab @
         ''This is a test log message'' @ tab @
         ''{'' @ [CHR 0x22] @ ''iteration'' @ [CHR 0x22] @ '':0}'' @ [CHR 0x0A])]"
    by (simp add: e)
  from C5_both_sinks_or_neither [OF r', of "test_entry ?t" "[(''iteration'', ''0'')]"] l(2)
  have b: "emit lg' (test_entry ?t) [(''iteration'', ''0'')] = []"
    by simp
  from a b r r' show ?thesis
    by (simp add: logger_of_def)
qed

section \<open>Properties: runs of the program\<close>

lemma child_name_log: "child_name filepath (log_filename filepath t) = Some (entry_name t)"
  by (simp add: child_name_def log_filename_def Let_def)

lemma run_once_unfold:
  assumes p: "prune filepath maxBackup st = Inr (st1, calls)"
  shows "run_once filepath maxBackup logLevel (t, ent, flds) st =
     (if logLevel \<le> Level ent
      then (case lumberjack_Write (entry_name t) st1 of None \<Rightarrow> Inl Unmodelled | Some st2 \<Rightarrow> Inr st2)
      else Inr st1)"
proof -
  let ?lg = "NewTee [NewCore (NewConsoleEncoder consoleEncoderConfig) Stdout logLevel,
                 NewCore (NewConsoleEncoder fileEncoderConfig) (Lumberjack (log_filename filepath t)) logLevel]"
  from p have n: "NewLogger filepath maxBackup logLevel t st = Inr (?lg, st1, calls)"
    by (simp add: NewLogger_prune)
  show ?thesis
  proof (cases "logLevel \<le> Level ent")
    case True
    from emit_console [OF n True] show ?thesis
      using True n by (simp add: run_once_def child_name_log split: option.splits)
  next
    case False
    then have "Level ent < logLevel" by simp
    from emit_below [OF n this] show ?thesis
      using False n by (simp add: run_once_def)
  qed
qed

lemma prune_bounded_logs:
  assumes k: "0 \<le> maxBackup" and b: "bounded_logs maxBackup es"
  shows "\<exists>es1 calls. prune filepath maxBackup (Directory True es) = Inr (Directory True es1, calls) \<and>
     distinct (map fst es1) \<and> (\<forall>e\<in>set es1. snd e = Regular) \<and> int (length es1) \<le> maxBackup"
proof (cases "int (length es) > maxBackup")
  case False
  with b show ?thesis
    by (auto simp: prune_readable bounded_logs_def)
next
  case True
  from b have d: "distinct (map fst es)" and r: "\<forall>e\<in>set es. snd e = Regular"
    and l: "int (length es) \<le> maxBackup + 1"
    by (auto simp: bounded_logs_def)
  let ?n = "Min (fst ` set es)"
  let ?es1 = "filter (\<lambda>e. fst e \<noteq> ?n) es"
  have "map_of es ?n \<noteq> Some NonEmptyDir"
  proof
    assume "map_of es ?n = Some NonEmptyDir"
    then have "(?n, NonEmptyDir) \<in> set es" by (rule map_of_SomeD)
    with r show False by force
  qed
  with prune_over_limit(1) [OF d k True, of filepath]
  have "prune filepath maxBackup (Directory True es) =
     Inr (Directory True ?es1, [Stat filepath, ReadDir filepath, Remove (filepath @ ''/'' @ ?n)])"
    by simp
  moreover from d have "distinct (map fst ?es1)" by (simp add: distinct_map_filter)
  moreover from r have "\<forall>e\<in>set ?es1. snd e = Regular" by simp
  moreover from prune_over_limit(2) [OF d k True] l True k have "int (length ?es1) \<le> maxBackup"
    by arith
  ultimately show ?thesis by blast
qed

lemma lumberjack_Write_logs:
  assumes d: "distinct (map fst es)" and r: "\<forall>e\<in>set es. snd e = Regular"
  shows "\<exists>es2. lumberjack_Write name (Directory True es) = Some (Directory True es2) \<and>
     distinct (map fst es2) \<and> (\<forall>e\<in>set es2. snd e = Regular) \<and> length es2 \<le> length es + 1"
proof (cases "map_of es name")
  case None
  then have "name \<notin> fst ` set es" by (simp add: map_of_eq_None_iff)
  with d r None show ?thesis by auto
next
  case (Some kd)
  then have "(name, kd) \<in> set es" by (rule map_of_SomeD)
  with r have "kd = Regular" by force
  with Some d r show ?thesis by auto
qed

lemma run_once_bounded_logs:
  assumes k: "0 \<le> maxBackup" and b: "bounded_logs maxBackup es"
  shows "\<exists>es'. run_once filepath maxBackup logLevel c (Directory True es) = Inr (Directory True es') \<and>
     bounded_logs maxBackup es'"
proof -
  obtain t ent flds where c: "c = (t, ent, flds)" by (cases c)
  from prune_bounded_logs [OF k b, of filepath] obtain es1 calls
    where p: "prune filepath maxBackup (Directory True es) = Inr (Directory True es1, calls)"
      and d: "distinct (map fst es1)" and r: "\<forall>e\<in>set es1. snd e = Regular"
      and l: "int (length es1) \<le> maxBackup"
    by blast
  show ?thesis
  proof (cases "logLevel \<le> Level ent")
    case False
    with d r l show ?thesis
      by (simp add: c run_once_unfold [OF p] bounded_logs_def)
  next
    case True
    from lumberjack_Write_logs [OF d r, of "entry_name t"] obtain es2
      where w: "lumberjack_Write (entry_name t) (Directory True es1) = Some (Directory True es2)"
        and "distinct (map fst es2)" "\<forall>e\<in>set es2. snd e = Regular" "length es2 \<le> length es1 + 1"
      by blast
    with l have "bounded_logs maxBackup es2"
      by (simp add: bounded_logs_def)
    with True w show ?thesis
      by (simp add: c run_once_unfold [OF p])
  qed
qed

lemma run_calls_bounded_logs:
  assumes k: "0 \<le> maxBackup"
  shows "bounded_logs maxBackup es \<Longrightarrow>
     \<exists>es'. run_calls filepath maxBackup logLevel cs (Directory True es) = Inr (Directory True es') \<and>
       bounded_logs maxBackup es'"
proof (induction cs arbitrary: es)
  case Nil
  then show ?case by simp
next
  case (Cons c cs)
  from run_once_bounded_logs [OF k Cons.prems, of filepath logLevel c] obtain es1
    where s: "run_once filepath maxBackup logLevel c (Directory True es) = Inr (Directory True es1)"
      and b: "bounded_logs maxBackup es1"
    by blast
  from Cons.IH [OF b] s show ?case by simp
qed

text \<open>
  Claim C3. Start from an empty directory, with a retention count that is not negative, and
  run the program any number of times, each run calling the factory and emitting one
  record. No run panics, and after each run the directory holds at most the retention count
  plus one entries. (The instants of the calls are arbitrary; one second apart is a case.)
\<close>

theorem C3_bounded_retention:
  "0 \<le> maxBackup \<Longrightarrow>
   \<forall>n\<le>length calls. \<exists>st'.
     run_calls filepath maxBackup logLevel (take n calls) (Directory True []) = Inr st' \<and>
     int (length (entries st')) \<le> maxBackup + 1"
proof (intro allI impI)
  fix n
  assume k: "0 \<le> maxBackup"
  then have "bounded_logs maxBackup []" by (simp add: bounded_logs_def)
  from run_calls_bounded_logs [OF k this, of filepath logLevel "take n calls"]
  show "\<exists>st'. run_calls filepath maxBackup logLevel (take n calls) (Directory True []) = Inr st' \<and>
     int (length (entries st')) \<le> maxBackup + 1"
    by (auto simp: bounded_logs_def)
qed

theorem C3_bounded_retention_witness:
  "\<exists>st'. run_calls ''./test_logs'' 3 DebugLevel five_calls (Directory True []) = Inr st' \<and>
     int (length (entries st')) \<le> 3 + 1"
proof -
  have "(0::int) \<le> 3" by simp
  from C3_bounded_retention [OF this, of five_calls "''./test_logs''" DebugLevel]
  have "\<forall>n\<le>length five_calls. \<exists>st'.
     run_calls ''./test_logs'' 3 DebugLevel (take n five_calls) (Directory True []) = Inr st' \<and>
     int (length (entries st')) \<le> 3 + 1" .
  moreover have "length five_calls = 5" by (simp add: five_calls_def)
  ultimately have "\<exists>st'.
     run_calls ''./test_logs'' 3 DebugLevel (take 5 five_calls) (Directory True []) = Inr st' \<and>
     int (length (entries st')) \<le> 3 + 1"
    by (metis order_refl)
  then show ?thesis
    by (simp add: \<open>length five_calls = 5\<close>)
qed

lemma prune_ascending:
  assumes k: "0 \<le> maxBackup" and a: "sorted_wrt (<) (map fst es)"
    and r: "\<forall>e\<in>set es. snd e = Regular"
  shows "\<exists>calls. prune filepath maxBackup (Directory True es) =
     Inr (Directory True (if int (length es) > maxBackup then tl es else es), calls)"
proof (cases "int (length es) > maxBackup")
  case False
  then show ?thesis by (simp add: prune_readable)
next
  case True
  with k obtain e es' where es: "es = e # es'" by (cases es) auto
  from a have s: "sort_key fst es = es"
    by (simp add: sort_key_id_if_sorted strict_sorted_imp_sorted)
  from a es have "\<forall>x\<in>set es'. fst e < fst x" by simp
  then have f: "filter (\<lambda>x. fst x \<noteq> fst e) es' = es'"
    by (auto simp: filter_id_conv)
  from r es have "snd e = Regular" by simp
  then have m: "map_of (e # es') (fst e) = Some Regular"
    by (cases e) simp
  from True s es f m show ?thesis
    by (simp add: prune_readable)
qed

lemma lumberjack_Write_new:
  assumes "\<forall>e\<in>set es. fst e < name"
  shows "lumberjack_Write name (Directory True es) = Some (Directory True (es @ [(name, Regular)]))"
proof -
  from assms have "name \<notin> fst ` set es" by auto
  then have "map_of es name = None" by (simp add: map_of_eq_None_iff)
  then show ?thesis by simp
qed

lemma run_once_ascending:
  assumes k: "0 \<le> maxBackup" and a: "sorted_wrt (<) (map fst es)"
    and r: "\<forall>e\<in>set es. snd e = Regular"
    and n: "\<forall>e\<in>set es. fst e < entry_name (fst c)"
    and l: "logLevel \<le> Level (fst (snd c))"
  shows "run_once filepath maxBackup logLevel c (Directory True es) =
     Inr (Directory True ((if int (length es) > maxBackup then tl es else es) @
            [(entry_name (fst c), Regular)]))"
proof -
  obtain t ent flds where c: "c = (t, ent, flds)" by (cases c)
  from prune_ascending [OF k a r, of filepath] obtain calls
    where p: "prune filepath maxBackup (Directory True es) =
     Inr (Directory True (if int (length es) > maxBackup then tl es else es), calls)"
    by blast
  from n have "\<forall>e\<in>set (if int (length es) > maxBackup then tl es else es). fst e < entry_name (fst c)"
    by (cases es) auto
  from lumberjack_Write_new [OF this] l show ?thesis
    by (simp add: c run_once_unfold [OF p])
qed

text \<open>
  Claim C1, as the code has it. Five runs on an empty directory with retention count 3, each
  emitting a record the logger accepts, the five file names increasing in string order (as
  they do for calls within one day): the directory ends with exactly four files, those of
  the second to the fifth call, and the file of the first call is gone.
\<close>

theorem C1_five_calls_keep_last_four:
  "sorted_wrt (<) (map (\<lambda>c. entry_name (fst c)) [c1, c2, c3, c4, c5]) \<Longrightarrow>
   (\<forall>c\<in>set [c1, c2, c3, c4, c5]. logLevel \<le> Level (fst (snd c))) \<Longrightarrow>
   run_calls filepath 3 logLevel [c1, c2, c3, c4, c5] (Directory True []) =
     Inr (Directory True
       [(entry_name (fst c2), Regular), (entry_name (fst c3), Regular),
        (entry_name (fst c4), Regular), (entry_name (fst c5), Regular)]) \<and>
   entry_name (fst c1) \<notin>
     {entry_name (fst c2), entry_name (fst c3), entry_name (fst c4), entry_name (fst c5)}"
proof -
  assume s: "sorted_wrt (<) (map (\<lambda>c. entry_name (fst c)) [c1, c2, c3, c4, c5])"
    and l: "\<forall>c\<in>set [c1, c2, c3, c4, c5]. logLevel \<le> Level (fst (snd c))"
  have k: "(0::int) \<le> 3" by simp
  let ?e = "\<lambda>c. (entry_name (fst c), Regular)"
  have r1: "run_once filepath 3 logLevel c1 (Directory True []) = Inr (Directory True [?e c1])"
    using l by (subst run_once_ascending [OF k]) simp_all
  have r2: "run_once filepath 3 logLevel c2 (Directory True [?e c1]) =
      Inr (Directory True [?e c1, ?e c2])"
    using l s by (subst run_once_ascending [OF k]) simp_all
  have r3: "run_once filepath 3 logLevel c3 (Directory True [?e c1, ?e c2]) =
      Inr (Directory True [?e c1, ?e c2, ?e c3])"
    using l s by (subst run_once_ascending [OF k]) simp_all
  have r4: "run_once filepath 3 logLevel c4 (Directory True [?e c1, ?e c2, ?e c3]) =
      Inr (Directory True [?e c1, ?e c2, ?e c3, ?e c4])"
    using l s by (subst run_once_ascending [OF k]) simp_all
  have r5: "run_once filepath 3 logLevel c5 (Directory True [?e c1, ?e c2, ?e c3, ?e c4]) =
      Inr (Directory True [?e c2, ?e c3, ?e c4, ?e c5])"
    using l s by (subst run_once_ascending [OF k]) simp_all
  from s have "entry_name (fst c1) \<notin>
     {entry_name (fst c2), entry_name (fst c3), entry_name (fst c4), entry_name (fst c5)}"
    by auto
  with r1 r2 r3 r4 r5 show ?thesis
    by simp
qed

theorem C1_five_calls_keep_last_four_witness:
  "run_calls ''./test_logs'' 3 DebugLevel five_calls (Directory True []) =
     Inr (Directory True (map (\<lambda>s. (entry_name (in_2024 6 15 10 0 s), Regular)) [1, 2, 3, 4]))"
proof -
  let ?c = "\<lambda>s. test_call (in_2024 6 15 10 0 s)"
  have s: "sorted_wrt (<) (map (\<lambda>c. entry_name (fst c)) [?c 0, ?c 1, ?c 2, ?c 3, ?c 4])"
    by code_simp
  have l: "\<forall>c\<in>set [?c 0, ?c 1, ?c 2, ?c 3, ?c 4]. DebugLevel \<le> Level (fst (snd c))"
    by (simp add: test_call_def test_entry_def DebugLevel_def InfoLevel_def)
  from C1_five_calls_keep_last_four [OF s l, of "''./test_logs''"] show ?thesis
    by (simp add: five_calls_def test_call_def)
qed



text \<open>
  The claim as stated fails on five calls one second apart: the file of the second call is
  still in the directory after the fifth call, as one of its four entries.
\<close>

theorem C1_second_file_present:
  "run_calls ''./test_logs'' 3 DebugLevel five_calls (Directory True []) =
     Inr (Directory True
       [(''logs_15-06-24_10-00-01.log'', Regular), (''logs_15-06-24_10-00-02.log'', Regular),
        (''logs_15-06-24_10-00-03.log'', Regular), (''logs_15-06-24_10-00-04.log'', Regular)]) \<and>
   entry_name (fst (five_calls ! 1)) = ''logs_15-06-24_10-00-01.log''"
  by code_simp

section \<open>Properties: file names within one day\<close>

lemma of_char_digit_char: "d < 10 \<Longrightarrow> (of_char (digit_char d) :: nat) = 48 + d"
  by (simp add: digit_char_def)

lemma digit_char_less: "d < 10 \<Longrightarrow> d' < 10 \<Longrightarrow> digit_char d < digit_char d' \<longleftrightarrow> d < d'"
  by (simp add: less_char_def of_char_digit_char)

lemma digit_char_eq: "d < 10 \<Longrightarrow> d' < 10 \<Longrightarrow> digit_char d = digit_char d' \<longleftrightarrow> d = d'"
proof
  assume "d < 10" "d' < 10" "digit_char d = digit_char d'"
  then have "(of_char (digit_char d) :: nat) = of_char (digit_char d')" by simp
  with \<open>d < 10\<close> \<open>d' < 10\<close> show "d = d'" by (simp add: of_char_digit_char)
qed simp

lemma two_digit_less:
  "q < 10 \<Longrightarrow> q' < 10 \<Longrightarrow> (10 * p + q < 10 * p' + q') = (p < p' \<or> p = p' \<and> q < (q'::nat))"
  by auto

lemma less_by_digits:
  "(a::nat) < b \<longleftrightarrow> a div 10 < b div 10 \<or> (a div 10 = b div 10 \<and> a mod 10 < b mod 10)"
proof -
  have "a = 10 * (a div 10) + a mod 10" "b = 10 * (b div 10) + b mod 10" by simp_all
  then have "a < b \<longleftrightarrow> 10 * (a div 10) + a mod 10 < 10 * (b div 10) + b mod 10" by simp
  also have "\<dots> \<longleftrightarrow> a div 10 < b div 10 \<or> (a div 10 = b div 10 \<and> a mod 10 < b mod 10)"
    by (rule two_digit_less) simp_all
  finally show ?thesis .
qed

lemma eq_by_digits:
  "(a::nat) = b \<longleftrightarrow> a div 10 = b div 10 \<and> a mod 10 = b mod 10"
  by (metis div_mult_mod_eq)

lemma pad2_less:
  assumes "a < 100" "b < 100"
  shows "pad2 a @ xs < pad2 b @ ys \<longleftrightarrow> a < b \<or> (a = b \<and> xs < ys)"
proof -
  from assms have d: "a div 10 < 10" "b div 10 < 10" "a mod 10 < 10" "b mod 10 < 10"
    by simp_all
  have "pad2 a @ xs < pad2 b @ ys \<longleftrightarrow>
    a div 10 < b div 10 \<or> (a div 10 = b div 10 \<and>
      (a mod 10 < b mod 10 \<or> (a mod 10 = b mod 10 \<and> xs < ys)))"
    by (simp add: pad2_def digit_char_less [OF d(1) d(2)] digit_char_less [OF d(3) d(4)]
        digit_char_eq [OF d(1) d(2)] digit_char_eq [OF d(3) d(4)])
  also have "\<dots> \<longleftrightarrow> a < b \<or> (a = b \<and> xs < ys)"
    using less_by_digits [of a b] eq_by_digits [of a b] by blast
  finally show ?thesis .
qed

lemma append_less_same_prefix: "zs @ xs < zs @ ys \<longleftrightarrow> xs < (ys :: 'a :: linorder list)"
  by (induction zs) simp_all


lemma clock_part_less:
  assumes b: "h < 100" "h' < 100" "m < 100" "m' < 100" "s < 100" "s' < 100"
  shows "pad2 h @ ''-'' @ pad2 m @ ''-'' @ pad2 s @ ''.log'' <
         pad2 h' @ ''-'' @ pad2 m' @ ''-'' @ pad2 s' @ ''.log'' \<longleftrightarrow>
     h < h' \<or> (h = h' \<and> (m < m' \<or> (m = m' \<and> s < s')))"
proof -
  have 3: "pad2 s @ ''.log'' < pad2 s' @ ''.log'' \<longleftrightarrow> s < s'"
    by (simp add: pad2_less [OF b(5) b(6)])
  have 2: "pad2 m @ ''-'' @ pad2 s @ ''.log'' < pad2 m' @ ''-'' @ pad2 s' @ ''.log'' \<longleftrightarrow>
     m < m' \<or> (m = m' \<and> s < s')"
    using 3 by (simp add: pad2_less [OF b(3) b(4)])
  show ?thesis
    using 2 by (simp add: pad2_less [OF b(1) b(2)])
qed

text \<open>
  Within one calendar day the string order of the file names is the order of the calls: for
  two valid instants of the same day, the name of the first is smaller exactly when its
  time of day, cut to the second, is earlier.
\<close>

lemma entry_name_less_same_day:
  assumes v: "valid_time t" and v': "valid_time t'" and s: "same_day t t'"
  shows "entry_name t < entry_name t' \<longleftrightarrow>
     hour t < hour t' \<or> (hour t = hour t' \<and>
       (minute t < minute t' \<or> (minute t = minute t' \<and> second t < second t')))"
proof -
  let ?p = "''logs_'' @ pad2 (day t) @ ''-'' @ pad2 (month t) @ ''-'' @
     pad2 (nat (\<bar>year t\<bar> mod 100)) @ ''_''"
  let ?c = "\<lambda>t. pad2 (hour t) @ ''-'' @ pad2 (minute t) @ ''-'' @ pad2 (second t) @ ''.log''"
  from v have e: "entry_name t = ?p @ ?c t"
    by (simp add: entry_name_def format_file_stamp_pad2)
  from v' s have e': "entry_name t' = ?p @ ?c t'"
    by (simp add: entry_name_def format_file_stamp_pad2 same_day_def)
  from v v' have b: "hour t < 100" "hour t' < 100" "minute t < 100" "minute t' < 100"
    "second t < 100" "second t' < 100"
    by (simp_all add: valid_time_def)
  have "entry_name t < entry_name t' \<longleftrightarrow> ?c t < ?c t'"
    unfolding e e' by (rule append_less_same_prefix)
  also have "\<dots> \<longleftrightarrow> hour t < hour t' \<or> (hour t = hour t' \<and>
       (minute t < minute t' \<or> (minute t = minute t' \<and> second t < second t')))"
    by (rule clock_part_less [OF b])
  finally show ?thesis .
qed

end
